theory Spec2Isabelle
  imports Main "HOL-Library.Word"
begin

section \<open>Action labels (SSTypes.cpp)\<close>

text \<open>
  The table \<open>g_szActions\<close> of SSTypes.cpp, entry for entry and in the order of the source.
  The comments of the source give the index of each entry; the entries commented
  ``missing action 18'' and ``missing action 19'' are at the indices 18 and 21.
\<close>

definition g_szActions :: "string list" where
  "g_szActions =
    [''Labeled'',
     ''Created Project'',
     ''Added Project'',
     ''Added File'',
     ''Destroyed Project'',
     ''Destroyed File'',
     ''Deleted Project'',
     ''Deleted File'',
     ''Recovered Project'',
     ''Recovered File'',
     ''Renamed Project'',
     ''Renamed File'',
     ''Moved Project From'',
     ''Moved Project To'',
     ''Shared File'',
     ''Branch File'',
     ''Created File'',
     ''Checked In'',
     ''Action 18'',
     ''RollBack'',
     ''Archive Versions of File'',
     ''Action 19'',
     ''Archive File'',
     ''Archive Project'',
     ''Restored File'',
     ''Restored Project'',
     ''Pinned File'',
     ''Unpinned File'']"

text \<open>
  \<open>countof (g_szActions)\<close>: the macro \<open>countof\<close> is not part of the sources at hand; it is
  the element count of the array, an unsigned \<open>size_t\<close> value.
\<close>

definition countof_g_szActions :: nat where
  "countof_g_szActions = length g_szActions"

text \<open>
  \<open>CAction::ActionToString (eAction e)\<close>. The code \<open>e\<close> is a signed 32-bit integer. The
  comparison \<open>e < countof (g_szActions)\<close> has an unsigned \<open>size_t\<close> on its right, so \<open>e\<close> is
  converted to \<open>size_t\<close> (sign extension to 64 bits, \<open>scast\<close>) and the comparison is unsigned:
  a negative code becomes a large index and takes the \<open>"unknown"\<close> branch. The array is
  indexed only under the guard.
\<close>

definition ActionToString :: "32 word \<Rightarrow> string" where
  "ActionToString e =
     (let i = (scast e :: 64 word)
      in if i < of_nat countof_g_szActions then g_szActions ! unat i else ''unknown'')"


section \<open>Record kinds and the type catalogue (SSRecord.h)\<close>

text \<open>The enumeration \<open>eType\<close> of SSRecord.h, in the order of the source.\<close>

datatype eType =
    eNone
  | eItemRecord
  | eHistoryRecord
  | eCommentRecord
  | eCheckOutRecord
  | eParentFolder
  | eFileDelta
  | eNamesCache
  | eNameCacheEntry
  | eProjectEntry
  | eUsersHeader
  | eUser
  | eBranchFile
  | eUnknown

text \<open>
  Modelled from the spec: the body of \<open>SSRecord::StringToType\<close>, which SSRecord.h only
  declares. The spec gives a fixed table from the two-character tag to the kind (the same
  tags stand in the comments of \<open>eType\<close>), with \<open>Unknown\<close> for every tag that is not in the
  table. The argument \<open>const char type[2]\<close> is a pair of characters.
\<close>

definition tag_table :: "(string \<times> eType) list" where
  "tag_table =
    [(''DH'', eItemRecord),
     (''EL'', eHistoryRecord),
     (''MC'', eCommentRecord),
     (''CF'', eCheckOutRecord),
     (''PF'', eParentFolder),
     (''FD'', eFileDelta),
     (''HN'', eNamesCache),
     (''SN'', eNameCacheEntry),
     (''JP'', eProjectEntry),
     (''HU'', eUsersHeader),
     (''UU'', eUser),
     (''BF'', eBranchFile)]"

definition StringToType :: "char \<times> char \<Rightarrow> eType" where
  "StringToType t =
     (case map_of tag_table [fst t, snd t] of Some k \<Rightarrow> k | None \<Rightarrow> eUnknown)"

section \<open>Records (SSRecord.h)\<close>

type_synonym byte = "8 word"
type_synonym off_t = "64 word"
type_synonym ulong32 = "32 word"

text \<open>
  Modelled from the spec: \<open>RECORD_HEADER\<close> is declared in SSTypes.h, which is not part of
  the sources at hand. SSRecord.h reads its member \<open>type\<close>, two characters, and takes its
  size. The spec describes the header as a 2-byte type tag and a length field that gives
  the size of the payload in bytes, never negative.
\<close>

record RECORD_HEADER =
  type :: "char \<times> char"
  len :: nat

text \<open>
  The data members of \<open>SSRecord\<close>. The buffer \<open>m_pBuffer\<close> is the list of the payload bytes;
  \<open>off_t\<close> is a signed 64-bit integer, a word read with \<open>sint\<close>. The handle
  \<open>m_FileImpPtr\<close> of the file is left out: the file is an argument of the functions that
  read it.
\<close>

record SSRecord =
  m_Header :: RECORD_HEADER
  m_pBuffer :: "byte list"
  m_Len :: off_t
  m_Offset :: off_t

text \<open>
  What the sources do not fix about the bytes on disk is taken as a parameter: the size of
  the header's length field (the header is the 2-byte tag and that field, so
  \<open>sizeof(m_Header)\<close> is at least 2), the decoding of a header from its bytes, and the
  decoding of the member \<open>previousOffset\<close> of the struct \<open>BF\<close> from a payload.
\<close>

record layout =
  length_field_size :: nat
  decode_header :: "byte list \<Rightarrow> RECORD_HEADER"
  decode_previousOffset :: "byte list \<Rightarrow> ulong32"

definition sizeof_header :: "layout \<Rightarrow> nat" where
  "sizeof_header L = 2 + length_field_size L"

text \<open>The inline accessors of \<open>SSRecord\<close>.\<close>

definition GetBuffer :: "SSRecord \<Rightarrow> byte list" where
  "GetBuffer r = m_pBuffer r"

definition GetLen :: "SSRecord \<Rightarrow> off_t" where
  "GetLen r = m_Len r"

definition GetOffset :: "SSRecord \<Rightarrow> off_t" where
  "GetOffset r = m_Offset r"

text \<open>
  \<open>m_Offset + m_Len + sizeof(m_Header)\<close>: the sum is taken in 64 bits and wraps around.
\<close>

definition GetNextOffset :: "layout \<Rightarrow> SSRecord \<Rightarrow> off_t" where
  "GetNextOffset L r = m_Offset r + m_Len r + of_nat (sizeof_header L)"

text \<open>
  \<open>std::string (m_Header.type, 2)\<close>: the string of exactly the two characters of the tag,
  whatever they are (the constructor with a count does not stop at a NUL).
\<close>

definition GetRecordType :: "SSRecord \<Rightarrow> string" where
  "GetRecordType r = (case type (m_Header r) of (c0, c1) \<Rightarrow> [c0, c1])"

text \<open>
  Modelled from the spec: the body of \<open>SSRecord::GetType\<close>, which SSRecord.h only declares.
  The kind of a record is the catalogue's kind of the tag in its header.
\<close>

definition GetType :: "SSRecord \<Rightarrow> eType" where
  "GetType r = StringToType (type (m_Header r))"

section \<open>Reading and scanning a physical file\<close>

text \<open>The error taxonomy of the spec.\<close>

datatype error =
    TruncatedRecord nat
  | UnknownRecordKind "char \<times> char" nat
  | InvalidPayload eType nat
  | BrokenChain nat
  | ChainTooLong nat
  | FileNotRecognized

datatype read_result = EndOfFile | Truncated | Rec SSRecord

text \<open>
  Modelled from the spec: reading one record at an offset, the work of the private
  constructor \<open>SSRecord (SSFileImpPtr filePtr, off_t offset)\<close>, whose body is not part of
  the sources at hand. A header is read at the offset; if fewer bytes than a header remain,
  the file has ended. Then as many payload bytes as the header declares are read; if fewer
  remain, the record is truncated. The record keeps the header, the payload, the declared
  length and the offset of its header in the file.
\<close>

definition read_record :: "layout \<Rightarrow> byte list \<Rightarrow> nat \<Rightarrow> read_result" where
  "read_record L file off =
     (let remaining = drop off file
      in if length remaining < sizeof_header L then EndOfFile
         else
           let h = decode_header L (take (sizeof_header L) remaining);
               body = drop (sizeof_header L) remaining
           in if length body < len h then Truncated
              else Rec \<lparr>m_Header = h, m_pBuffer = take (len h) body,
                        m_Len = of_nat (len h), m_Offset = of_nat off\<rparr>)"

text \<open>
  Modelled from the spec: \<open>RecordReader.scan\<close>, which is not part of the sources at hand.
  From the current offset: a clean end of file ends the sequence without an error; a
  truncated record ends it with \<open>TruncatedRecord\<close> and the offset of that record; otherwise
  the record is produced and the scan goes on at
  \<open>nextOffset = offset + length + headerSize\<close>. The result is the list of the records
  produced, in order, and the error that ended the sequence, if any.
\<close>

function scan_from :: "layout \<Rightarrow> byte list \<Rightarrow> nat \<Rightarrow> SSRecord list \<times> error option" where
  "scan_from L file off =
     (case read_record L file off of
        EndOfFile \<Rightarrow> ([], None)
      | Truncated \<Rightarrow> ([], Some (TruncatedRecord off))
      | Rec r \<Rightarrow>
          (case scan_from L file (off + len (m_Header r) + sizeof_header L) of
             (rs, e) \<Rightarrow> (r # rs, e)))"
  by pat_completeness auto
termination
proof (relation "measure (\<lambda>(L, bs, off). length bs - off)")
  show "wf (measure (\<lambda>(L, bs, off). length bs - off))"
    by simp
next
  fix L :: layout and bs :: "byte list" and off :: nat and r :: SSRecord
  assume "read_record L bs off = Rec r"
  then have "off < length bs"
    by (auto simp: read_record_def sizeof_header_def Let_def split: if_splits)
  then show "((L, bs, off + len (m_Header r) + sizeof_header L), (L, bs, off))
               \<in> measure (\<lambda>(L, bs, off). length bs - off)"
    by (simp add: sizeof_header_def)
qed

definition scan :: "layout \<Rightarrow> byte list \<Rightarrow> SSRecord list \<times> error option" where
  "scan L file = scan_from L file 0"

declare scan_from.simps [simp del]

subsection \<open>Files built from records\<close>

text \<open>
  A file built by concatenating records: each record is given by the bytes of its header
  and by its payload. The header is correct when it has the size of a header and declares
  the length of the payload. The constructed layout gives, for each record, the offset of
  its header and the offset of the byte after its payload.
\<close>

type_synonym raw_record = "byte list \<times> byte list"

definition correct_header :: "layout \<Rightarrow> raw_record \<Rightarrow> bool" where
  "correct_header L rp =
     (length (fst rp) = sizeof_header L \<and> len (decode_header L (fst rp)) = length (snd rp))"

definition well_formed :: "layout \<Rightarrow> raw_record list \<Rightarrow> bool" where
  "well_formed L recs = list_all (correct_header L) recs"

definition raw_bytes :: "raw_record \<Rightarrow> byte list" where
  "raw_bytes rp = fst rp @ snd rp"

definition build_file :: "raw_record list \<Rightarrow> byte list" where
  "build_file recs = concat (map raw_bytes recs)"

fun layout_spans :: "nat \<Rightarrow> raw_record list \<Rightarrow> (nat \<times> nat) list" where
  "layout_spans off [] = []"
| "layout_spans off (rp # recs) =
     (off, off + length (raw_bytes rp)) # layout_spans (off + length (raw_bytes rp)) recs"

fun expected_records :: "layout \<Rightarrow> nat \<Rightarrow> raw_record list \<Rightarrow> SSRecord list" where
  "expected_records L off [] = []"
| "expected_records L off (rp # recs) =
     \<lparr>m_Header = decode_header L (fst rp), m_pBuffer = snd rp,
      m_Len = of_nat (length (snd rp)), m_Offset = of_nat off\<rparr>
     # expected_records L (off + length (raw_bytes rp)) recs"

section \<open>Branch-file objects (SSBranchFileObject.h)\<close>

text \<open>
  A branch-file object is a view of its record. \<open>SSObject::GetData\<close> is not part of the
  sources at hand; the data of an object is the buffer of its record, reinterpreted as the
  struct \<open>BF\<close>.
\<close>

record SSBranchFileObject =
  m_pRecord :: SSRecord

definition GetData :: "SSBranchFileObject \<Rightarrow> byte list" where
  "GetData obj = GetBuffer (m_pRecord obj)"

definition GetPreviousOffset :: "layout \<Rightarrow> SSBranchFileObject \<Rightarrow> ulong32" where
  "GetPreviousOffset L obj = decode_previousOffset L (GetData obj)"

text \<open>
  Modelled from the spec: the body of \<open>SSBranchFileObject::GetPrevious\<close>
  (\<open>ChainResolver.previousOf\<close>), which SSBranchFileObject.h only declares. The record at
  \<open>previousOffset\<close> in the same file is read again and its object is rebuilt; it must be a
  branch-file record. An offset outside the file, or one that yields no well-formed record
  or a record of another kind, fails with \<open>BrokenChain\<close>. The spec does not say what a
  terminal variant is; only branch-file records are accepted here.
\<close>

definition GetPrevious :: "layout \<Rightarrow> byte list \<Rightarrow> SSBranchFileObject \<Rightarrow> error + SSBranchFileObject" where
  "GetPrevious L file obj =
     (let off = unat (GetPreviousOffset L obj)
      in case read_record L file off of
           Rec r \<Rightarrow>
             if GetType r = eBranchFile then Inr \<lparr>m_pRecord = r\<rparr> else Inl (BrokenChain off)
         | EndOfFile \<Rightarrow> Inl (BrokenChain off)
         | Truncated \<Rightarrow> Inl (BrokenChain off))"

section \<open>The validate command (ValidateCommand.cpp)\<close>

text \<open>
  \<open>SSRecordFile::MakeFile\<close> and \<open>SSRecordFile::Validate\<close> are not part of the sources at
  hand and are parameters. \<open>MakeFile\<close> returns a pointer, which is null or a file object, or
  throws; \<open>Validate\<close> returns nothing or throws.
\<close>

datatype ('e, 'f) MakeFile_result = Throws 'e | Null | File 'f

datatype outcome = NothingDone | Validated

text \<open>
  \<open>CValidateCommand::Execute\<close>: the file object is made from the argument; under the
  guard \<open>if (pFile.get())\<close> it is validated. Nothing is caught, so what \<open>MakeFile\<close> or
  \<open>Validate\<close> throws leaves \<open>Execute\<close>; there is no \<open>else\<close> branch, so with a null pointer
  \<open>Execute\<close> returns having done nothing. The options are not used.
\<close>

definition Execute ::
  "(string \<Rightarrow> ('e, 'f) MakeFile_result) \<Rightarrow> ('f \<Rightarrow> 'e + unit) \<Rightarrow> 'o \<Rightarrow> string \<Rightarrow> 'e + outcome" where
  "Execute MakeFile Validate options arg =
     (case MakeFile arg of
        Throws e \<Rightarrow> Inl e
      | Null \<Rightarrow> Inr NothingDone
      | File pFile \<Rightarrow>
          (case Validate pFile of Inl e \<Rightarrow> Inl e | Inr u \<Rightarrow> Inr Validated))"

section \<open>Sample inputs\<close>

text \<open>
  A layout to run the definitions on: the header is the two tag bytes followed by the
  length of the payload as a 32-bit little-endian number; \<open>previousOffset\<close> is the first
  four bytes of the payload, little-endian.
\<close>

definition le_nat :: "byte list \<Rightarrow> nat" where
  "le_nat bs = foldr (\<lambda>b n. unat b + 256 * n) bs 0"

definition tag_char :: "byte \<Rightarrow> char" where
  "tag_char b = char_of (unat b)"

definition sample_decode_header :: "byte list \<Rightarrow> RECORD_HEADER" where
  "sample_decode_header h =
     (case h of
        a # b # lenf \<Rightarrow> \<lparr>type = (tag_char a, tag_char b), len = le_nat (take 4 lenf)\<rparr>
      | _ \<Rightarrow> \<lparr>type = (CHR 0x00, CHR 0x00), len = 0\<rparr>)"

definition sample_decode_previousOffset :: "byte list \<Rightarrow> ulong32" where
  "sample_decode_previousOffset p = of_nat (le_nat (take 4 p))"

definition sample_layout :: layout where
  "sample_layout =
     \<lparr>length_field_size = 4, decode_header = sample_decode_header,
      decode_previousOffset = sample_decode_previousOffset\<rparr>"

text \<open>
  Three records: tag \<open>ZZ\<close> with 4 payload bytes at offset 0, tag \<open>BF\<close> with 10 payload
  bytes and \<open>previousOffset = 0\<close> at offset 10, and tag \<open>BF\<close> with 10 payload bytes and
  \<open>previousOffset = 10\<close> at offset 26. The file has 42 bytes.
\<close>

definition sample_records :: "raw_record list" where
  "sample_records =
     [([0x5A, 0x5A, 4, 0, 0, 0], [1, 2, 3, 4]),
      ([0x42, 0x46, 10, 0, 0, 0], [0, 0, 0, 0, 0x41, 0x41, 0x41, 0x41, 0x41, 0x41]),
      ([0x42, 0x46, 10, 0, 0, 0], [10, 0, 0, 0, 0x42, 0x42, 0x42, 0x42, 0x42, 0x42])]"

text \<open>A header that declares 100 payload bytes, followed by 40 bytes only.\<close>

definition sample_truncated_tail :: "byte list" where
  "sample_truncated_tail = [0x45, 0x4C, 100, 0, 0, 0] @ replicate 40 0"

text \<open>The branch-file object of the third sample record.\<close>

definition sample_branch_object :: SSBranchFileObject where
  "sample_branch_object = \<lparr>m_pRecord = expected_records sample_layout 0 sample_records ! 2\<rparr>"

text \<open>A \<open>MakeFile\<close> that recognises no path, and a \<open>Validate\<close> that finds nothing.\<close>

definition MakeFile_null :: "string \<Rightarrow> (error, unit) MakeFile_result" where
  "MakeFile_null arg = Null"

definition MakeFile_throws :: "string \<Rightarrow> (error, unit) MakeFile_result" where
  "MakeFile_throws arg = Throws FileNotRecognized"

definition Validate_pass :: "unit \<Rightarrow> error + unit" where
  "Validate_pass pFile = Inr ()"

section \<open>Properties of the action labels\<close>

lemma uint_size_t_of_int:
  fixes e :: "32 word"
  shows "uint (scast e :: 64 word) = (if 0 \<le> sint e then sint e else sint e + 2 ^ 64)"
proof -
  have r: "- (2 ^ 31) \<le> sint e" "sint e < 2 ^ 31"
    using sint_ge [of e] sint_lt [of e] by simp_all
  have p: "(2::int) ^ 31 < 2 ^ 64" by simp
  have u: "uint (scast e :: 64 word) = sint e mod 2 ^ 64"
    by (simp only: scast_eq uint_word_of_int) simp
  show ?thesis
  proof (cases "0 \<le> sint e")
    case True
    moreover have "sint e < 2 ^ 64" using r(2) p by linarith
    ultimately have "sint e mod 2 ^ 64 = sint e" by (rule mod_pos_pos_trivial)
    then show ?thesis using True u by simp
  next
    case False
    have "0 \<le> sint e + 2 ^ 64" "sint e + 2 ^ 64 < 2 ^ 64" using r(1) False p by linarith+
    then have "(sint e + 2 ^ 64) mod 2 ^ 64 = sint e + 2 ^ 64" by (rule mod_pos_pos_trivial)
    then have "sint e mod 2 ^ 64 = sint e + 2 ^ 64" by (simp only: mod_add_self2)
    then show ?thesis using False u by simp
  qed
qed

lemma countof_g_szActions_28: "countof_g_szActions = 28"
  by (simp add: countof_g_szActions_def g_szActions_def)

lemma ActionToString_guard:
  fixes e :: "32 word"
  shows "((scast e :: 64 word) < of_nat countof_g_szActions) = (0 \<le> sint e \<and> sint e \<le> 27)"
proof -
  have r: "- (2 ^ 31) \<le> sint e"
    using sint_ge [of e] by simp
  have n: "uint (of_nat countof_g_szActions :: 64 word) = 28"
    by (simp add: countof_g_szActions_28)
  show ?thesis
    unfolding word_less_alt n uint_size_t_of_int using r by auto
qed

lemma ActionToString_in_range:
  assumes "0 \<le> sint e" and "sint e \<le> 27"
  shows "ActionToString e = g_szActions ! nat (sint e)"
proof -
  have "unat (scast e :: 64 word) = nat (sint e)"
    using assms(1) by (simp add: unat_eq_nat_uint uint_size_t_of_int)
  then show ?thesis
    using assms by (simp add: ActionToString_def Let_def ActionToString_guard)
qed

lemma ActionToString_out_of_range:
  assumes "sint e < 0 \<or> 27 < sint e"
  shows "ActionToString e = ''unknown''"
  using assms by (auto simp: ActionToString_def Let_def ActionToString_guard)

text \<open>
  Claim C3. \<open>ActionToString\<close> is a total function of the signed 32-bit code: every code
  gives a label, which is an entry of \<open>g_szActions\<close> or \<open>"unknown"\<close>; a code from 0 to 27
  gives the entry of the table at that index; every code out of range, negative or greater
  than 27, gives \<open>"unknown"\<close>.
\<close>

theorem ActionToString_total:
  "(sint e < 0 \<or> 27 < sint e \<longrightarrow> ActionToString e = ''unknown'')
   \<and> (0 \<le> sint e \<and> sint e \<le> 27 \<longrightarrow> ActionToString e = g_szActions ! nat (sint e))
   \<and> ActionToString e \<in> set g_szActions \<union> {''unknown''}"
proof -
  have "ActionToString e \<in> set g_szActions \<union> {''unknown''}"
  proof (cases "0 \<le> sint e \<and> sint e \<le> 27")
    case True
    then have "nat (sint e) < 28"
      by linarith
    then have "nat (sint e) < length g_szActions"
      using countof_g_szActions_28 by (simp only: countof_g_szActions_def)
    then have "g_szActions ! nat (sint e) \<in> set g_szActions"
      by (rule nth_mem)
    then show ?thesis
      using True by (simp add: ActionToString_in_range)
  next
    case False
    then have "sint e < 0 \<or> 27 < sint e" by linarith
    then show ?thesis by (simp add: ActionToString_out_of_range)
  qed
  then show ?thesis
    using ActionToString_in_range [of e] ActionToString_out_of_range [of e] by blast
qed

theorem ActionToString_total_witness:
  "sint (- 1 :: 32 word) < 0 \<and> ActionToString (- 1) = ''unknown''
   \<and> 27 < sint (28 :: 32 word) \<and> ActionToString 28 = ''unknown''
   \<and> 0 \<le> sint (17 :: 32 word) \<and> sint (17 :: 32 word) \<le> 27
   \<and> ActionToString 17 = ''Checked In''"
proof -
  have a: "sint (- 1 :: 32 word) < 0" by simp
  have b: "27 < sint (28 :: 32 word)" by simp
  have c: "0 \<le> sint (17 :: 32 word) \<and> sint (17 :: 32 word) \<le> 27" by simp
  have d: "g_szActions ! nat (sint (17 :: 32 word)) = ''Checked In''"
    by (simp add: g_szActions_def)
  show ?thesis
    using a b c d ActionToString_total [of "- 1"] ActionToString_total [of 28]
      ActionToString_total [of 17]
    by (simp only: simp_thms)
qed

text \<open>
  Claim C4, as stated, fails at the code 19: the table has \<open>"RollBack"\<close> at the index 19,
  not the placeholder \<open>"Action 19"\<close>.
\<close>

theorem ActionToString_19_counterexample:
  "ActionToString 19 = ''RollBack'' \<and> ActionToString 19 \<noteq> ''Action 19''"
  by (simp add: ActionToString_def countof_g_szActions_def g_szActions_def)

text \<open>
  Claim C4, amended. The two placeholder labels \<open>"Action 18"\<close> and \<open>"Action 19"\<close> are the
  labels of the codes 18 and 21; the code 19 has the label \<open>"RollBack"\<close>; the two pseudo
  actions 26 and 27 have the labels \<open>"Pinned File"\<close> and \<open>"Unpinned File"\<close>.
\<close>

theorem ActionToString_placeholders:
  "ActionToString 18 = ''Action 18''
   \<and> ActionToString 19 = ''RollBack''
   \<and> ActionToString 21 = ''Action 19''
   \<and> ActionToString 26 = ''Pinned File''
   \<and> ActionToString 27 = ''Unpinned File''"
  by (simp add: ActionToString_def countof_g_szActions_def g_szActions_def)

section \<open>Properties of the type catalogue and of the record accessors\<close>

text \<open>
  Claim C2. \<open>StringToType\<close> is total on pairs of characters: each of the twelve tags of
  the table gives its kind, every tag that is not in the table gives \<open>eUnknown\<close>, and every
  result is a kind of the table or \<open>eUnknown\<close>.
\<close>

theorem StringToType_total:
  "StringToType (CHR ''D'', CHR ''H'') = eItemRecord
   \<and> StringToType (CHR ''E'', CHR ''L'') = eHistoryRecord
   \<and> StringToType (CHR ''M'', CHR ''C'') = eCommentRecord
   \<and> StringToType (CHR ''C'', CHR ''F'') = eCheckOutRecord
   \<and> StringToType (CHR ''P'', CHR ''F'') = eParentFolder
   \<and> StringToType (CHR ''F'', CHR ''D'') = eFileDelta
   \<and> StringToType (CHR ''H'', CHR ''N'') = eNamesCache
   \<and> StringToType (CHR ''S'', CHR ''N'') = eNameCacheEntry
   \<and> StringToType (CHR ''J'', CHR ''P'') = eProjectEntry
   \<and> StringToType (CHR ''H'', CHR ''U'') = eUsersHeader
   \<and> StringToType (CHR ''U'', CHR ''U'') = eUser
   \<and> StringToType (CHR ''B'', CHR ''F'') = eBranchFile
   \<and> (\<forall>c0 c1. [c0, c1] \<notin> fst ` set tag_table \<longrightarrow> StringToType (c0, c1) = eUnknown)
   \<and> (\<forall>t. StringToType t \<in> snd ` set tag_table \<union> {eUnknown})"
proof -
  have known: "StringToType (CHR ''D'', CHR ''H'') = eItemRecord
   \<and> StringToType (CHR ''E'', CHR ''L'') = eHistoryRecord
   \<and> StringToType (CHR ''M'', CHR ''C'') = eCommentRecord
   \<and> StringToType (CHR ''C'', CHR ''F'') = eCheckOutRecord
   \<and> StringToType (CHR ''P'', CHR ''F'') = eParentFolder
   \<and> StringToType (CHR ''F'', CHR ''D'') = eFileDelta
   \<and> StringToType (CHR ''H'', CHR ''N'') = eNamesCache
   \<and> StringToType (CHR ''S'', CHR ''N'') = eNameCacheEntry
   \<and> StringToType (CHR ''J'', CHR ''P'') = eProjectEntry
   \<and> StringToType (CHR ''H'', CHR ''U'') = eUsersHeader
   \<and> StringToType (CHR ''U'', CHR ''U'') = eUser
   \<and> StringToType (CHR ''B'', CHR ''F'') = eBranchFile"
    by (simp add: StringToType_def tag_table_def)
  have unknown: "StringToType (c0, c1) = eUnknown" if "[c0, c1] \<notin> fst ` set tag_table" for c0 c1
  proof -
    from that have "map_of tag_table [c0, c1] = None"
      by (simp add: map_of_eq_None_iff)
    then show ?thesis by (simp add: StringToType_def)
  qed
  have range: "StringToType t \<in> snd ` set tag_table \<union> {eUnknown}" for t
  proof (cases "map_of tag_table [fst t, snd t]")
    case None
    then show ?thesis by (simp add: StringToType_def)
  next
    case (Some k)
    then have "([fst t, snd t], k) \<in> set tag_table"
      by (rule map_of_SomeD)
    then have "k \<in> snd ` set tag_table"
      by (rule image_eqI [rotated]) simp
    then show ?thesis using Some by (simp add: StringToType_def)
  qed
  show ?thesis
    using known unknown range by blast
qed

theorem StringToType_total_witness:
  "''ZZ'' \<notin> fst ` set tag_table \<and> StringToType (CHR ''Z'', CHR ''Z'') = eUnknown"
proof -
  have a: "[CHR ''Z'', CHR ''Z''] \<notin> fst ` set tag_table"
    by (simp add: tag_table_def)
  then show ?thesis
    using StringToType_total by blast
qed

lemma tag_char_numeral [simp]:
  "tag_char 0x42 = CHR ''B''" "tag_char 0x46 = CHR ''F''" "tag_char 0x5A = CHR ''Z''"
  "tag_char 0x45 = CHR ''E''" "tag_char 0x4C = CHR ''L''"
  by (simp_all add: tag_char_def char_of_def bit_0)

text \<open>
  Claim C10. For every record, whatever the kind of its tag, \<open>GetRecordType\<close> is a string
  of exactly two characters, the two characters of the tag in the header of the record.
\<close>

theorem GetRecordType_raw_tag:
  "length (GetRecordType r) = 2
   \<and> GetRecordType r = [fst (type (m_Header r)), snd (type (m_Header r))]"
  by (simp add: GetRecordType_def case_prod_unfold)

theorem GetRecordType_raw_tag_witness:
  "GetType (expected_records sample_layout 0 sample_records ! 0) = eUnknown
   \<and> GetRecordType (expected_records sample_layout 0 sample_records ! 0) = ''ZZ''"
proof -
  have r: "m_Header (expected_records sample_layout 0 sample_records ! 0) =
      \<lparr>type = (CHR ''Z'', CHR ''Z''), len = 4\<rparr>"
    by (simp add: sample_layout_def sample_records_def sample_decode_header_def le_nat_def)
  have "GetType (expected_records sample_layout 0 sample_records ! 0) = eUnknown"
    by (simp add: GetType_def r StringToType_def tag_table_def)
  then show ?thesis
    using GetRecordType_raw_tag [of "expected_records sample_layout 0 sample_records ! 0"]
    by (simp add: r)
qed

section \<open>Properties of the scan\<close>

lemma length_raw_bytes: "length (raw_bytes rp) = length (fst rp) + length (snd rp)"
  by (simp add: raw_bytes_def)

lemma build_file_Cons: "build_file (rp # recs) = fst rp @ snd rp @ build_file recs"
  by (simp add: build_file_def raw_bytes_def)

lemma build_file_Nil: "build_file [] = []"
  by (simp add: build_file_def)

lemma well_formed_Cons: "well_formed L (rp # recs) = (correct_header L rp \<and> well_formed L recs)"
  by (simp add: well_formed_def)

lemma read_record_at:
  assumes "correct_header L rp"
  shows "read_record L (pre @ fst rp @ snd rp @ rest) (length pre) =
           Rec \<lparr>m_Header = decode_header L (fst rp), m_pBuffer = snd rp,
                m_Len = of_nat (length (snd rp)), m_Offset = of_nat (length pre)\<rparr>"
  using assms by (simp add: read_record_def correct_header_def Let_def)

lemma scan_from_build_file:
  assumes "well_formed L recs"
  shows "scan_from L (pre @ build_file recs @ rest) (length pre) =
           (case scan_from L (pre @ build_file recs @ rest) (length pre + length (build_file recs)) of
              (rs, e) \<Rightarrow> (expected_records L (length pre) recs @ rs, e))"
  using assms
proof (induction recs arbitrary: pre)
  case Nil
  show ?case by (simp add: build_file_Nil split: prod.split)
next
  case (Cons rp recs)
  from Cons.prems have ch: "correct_header L rp" and wf: "well_formed L recs"
    by (simp_all add: well_formed_Cons)
  let ?file = "pre @ build_file (rp # recs) @ rest"
  let ?pre' = "pre @ fst rp @ snd rp"
  have fl: "?file = ?pre' @ build_file recs @ rest"
    by (simp add: build_file_Cons)
  have rd: "read_record L ?file (length pre) =
              Rec \<lparr>m_Header = decode_header L (fst rp), m_pBuffer = snd rp,
                   m_Len = of_nat (length (snd rp)), m_Offset = of_nat (length pre)\<rparr>"
    using read_record_at [OF ch, of pre "build_file recs @ rest"]
    by (simp add: build_file_Cons)
  have nxt: "length pre + len (decode_header L (fst rp)) + sizeof_header L = length ?pre'"
    using ch by (simp add: correct_header_def)
  have step: "scan_from L ?file (length pre) =
           (case scan_from L ?file (length ?pre') of
              (rs, e) \<Rightarrow> (\<lparr>m_Header = decode_header L (fst rp), m_pBuffer = snd rp,
                   m_Len = of_nat (length (snd rp)), m_Offset = of_nat (length pre)\<rparr> # rs, e))"
    by (subst scan_from.simps) (simp only: rd read_result.case SSRecord.select_convs nxt)
  have ih: "scan_from L ?file (length ?pre') =
           (case scan_from L ?file (length ?pre' + length (build_file recs)) of
              (rs, e) \<Rightarrow> (expected_records L (length ?pre') recs @ rs, e))"
    using Cons.IH [OF wf, of ?pre'] by (simp only: fl)
  have len: "length pre + length (build_file (rp # recs)) = length ?pre' + length (build_file recs)"
    by (simp add: build_file_Cons)
  show ?case
    unfolding step len
    by (subst ih) (simp add: length_raw_bytes split: prod.split)
qed

lemma read_record_end:
  assumes "length file - off < sizeof_header L"
  shows "read_record L file off = EndOfFile"
  using assms by (simp add: read_record_def)

lemma read_record_truncated:
  assumes "sizeof_header L \<le> length file - off"
    and "length file - off - sizeof_header L
           < len (decode_header L (take (sizeof_header L) (drop off file)))"
  shows "read_record L file off = Truncated"
proof -
  have "\<not> length (drop off file) < sizeof_header L"
    using assms(1) by simp
  moreover have "length (drop (sizeof_header L) (drop off file))
      < len (decode_header L (take (sizeof_header L) (drop off file)))"
    using assms(2) by simp
  ultimately show ?thesis
    unfolding read_record_def Let_def by (simp only: if_False if_True)
qed

lemma scan_from_end:
  assumes "length file - off < sizeof_header L"
  shows "scan_from L file off = ([], None)"
  by (subst scan_from.simps) (simp add: read_record_end [OF assms])

lemma scan_from_truncated:
  assumes "sizeof_header L \<le> length file - off"
    and "length file - off - sizeof_header L
           < len (decode_header L (take (sizeof_header L) (drop off file)))"
  shows "scan_from L file off = ([], Some (TruncatedRecord off))"
  by (subst scan_from.simps) (simp add: read_record_truncated [OF assms])

lemma length_expected_records: "length (expected_records L off recs) = length recs"
  by (induction recs arbitrary: off) simp_all

lemma spans_expected_records:
  assumes "well_formed L recs"
  shows "map (\<lambda>r. (GetOffset r, GetNextOffset L r)) (expected_records L off recs) =
           map (\<lambda>(a, b). (of_nat a, of_nat b)) (layout_spans off recs)"
  using assms
proof (induction recs arbitrary: off)
  case Nil
  show ?case by simp
next
  case (Cons rp recs)
  from Cons.prems have ch: "correct_header L rp" and wf: "well_formed L recs"
    by (simp_all add: well_formed_Cons)
  from ch have "length (raw_bytes rp) = length (snd rp) + sizeof_header L"
    by (simp add: correct_header_def length_raw_bytes)
  then show ?case
    using Cons.IH [OF wf]
    by (simp add: GetOffset_def GetNextOffset_def)
qed

lemma layout_spans_bounds:
  "(a, b) \<in> set (layout_spans off recs) \<Longrightarrow> a \<le> b \<and> b \<le> off + length (build_file recs)"
proof (induction recs arbitrary: off)
  case Nil
  then show ?case by simp
next
  case (Cons rp recs)
  then show ?case
    by (fastforce simp: build_file_Cons length_raw_bytes)
qed

lemma sint_off_t_of_nat:
  assumes "n < 2 ^ 63"
  shows "sint (of_nat n :: off_t) = int n"
proof -
  have "int n < 2 ^ 63"
    using assms by (simp add: nat_less_iff)
  moreover have "- (2 ^ 63) \<le> int n"
    by (rule order_trans [of _ 0]) simp_all
  ultimately have "signed_take_bit 63 (int n) = int n"
    by (simp only: signed_take_bit_int_eq_self)
  then show ?thesis
    by (simp add: signed_of_nat)
qed

lemma sample_well_formed: "well_formed sample_layout sample_records"
  by (simp add: well_formed_def correct_header_def sample_layout_def sample_records_def
      sample_decode_header_def le_nat_def sizeof_header_def)

lemma sample_file_length: "length (build_file sample_records) = 42"
  by (simp add: build_file_def raw_bytes_def sample_records_def)

lemma sample_spans: "layout_spans 0 sample_records = [(0, 10), (10, 26), (26, 42)]"
  by (simp add: sample_records_def raw_bytes_def)

text \<open>
  Claim C1. For a file built by concatenating \<open>N\<close> records with correct headers, the scan
  ends without an error and yields exactly \<open>N\<close> records, each with the header and the
  payload it was built from; the offset and the next offset of each record are those of the
  constructed layout, as 64-bit words and, for a file shorter than \<open>2 ^ 63\<close> bytes, as signed
  integers. For every record, \<open>GetNextOffset\<close> is \<open>GetOffset\<close> plus \<open>GetLen\<close> plus the size
  of the header.
\<close>

theorem scan_well_formed_file:
  assumes "well_formed L recs"
  shows "scan L (build_file recs) = (expected_records L 0 recs, None)
       \<and> length (fst (scan L (build_file recs))) = length recs
       \<and> map (\<lambda>r. (GetOffset r, GetNextOffset L r)) (fst (scan L (build_file recs))) =
            map (\<lambda>(a, b). (of_nat a, of_nat b)) (layout_spans 0 recs)
       \<and> (length (build_file recs) < 2 ^ 63 \<longrightarrow>
            map (\<lambda>r. (sint (GetOffset r), sint (GetNextOffset L r))) (fst (scan L (build_file recs))) =
            map (\<lambda>(a, b). (int a, int b)) (layout_spans 0 recs))
       \<and> (\<forall>r. GetNextOffset L r = GetOffset r + GetLen r + of_nat (sizeof_header L))"
proof -
  have "scan_from L ([] @ build_file recs @ []) (length ([] :: byte list)) =
          (case scan_from L ([] @ build_file recs @ []) (length ([] :: byte list) + length (build_file recs)) of
             (rs, e) \<Rightarrow> (expected_records L (length ([] :: byte list)) recs @ rs, e))"
    using assms by (rule scan_from_build_file)
  moreover have "scan_from L (build_file recs) (length (build_file recs)) = ([], None)"
    by (rule scan_from_end) (simp add: sizeof_header_def)
  ultimately have sc: "scan L (build_file recs) = (expected_records L 0 recs, None)"
    by (simp add: scan_def)
  have words: "map (\<lambda>r. (GetOffset r, GetNextOffset L r)) (expected_records L 0 recs) =
            map (\<lambda>(a, b). (of_nat a, of_nat b)) (layout_spans 0 recs)"
    using assms by (rule spans_expected_records)
  have ints: "map (\<lambda>r. (sint (GetOffset r), sint (GetNextOffset L r))) (expected_records L 0 recs) =
            map (\<lambda>(a, b). (int a, int b)) (layout_spans 0 recs)"
    if small: "length (build_file recs) < 2 ^ 63"
  proof -
    have "map (\<lambda>r. (sint (GetOffset r), sint (GetNextOffset L r))) (expected_records L 0 recs) =
          map (\<lambda>(x, y). (sint x, sint y))
            (map (\<lambda>r. (GetOffset r, GetNextOffset L r)) (expected_records L 0 recs))"
      by simp
    also have "\<dots> = map (\<lambda>(a, b). (sint (of_nat a :: off_t), sint (of_nat b :: off_t)))
                      (layout_spans 0 recs)"
      by (simp only: words) (simp add: case_prod_unfold comp_def)
    also have "\<dots> = map (\<lambda>(a, b). (int a, int b)) (layout_spans 0 recs)"
    proof (rule map_cong [OF refl])
      fix s assume "s \<in> set (layout_spans 0 recs)"
      then have "fst s \<le> snd s \<and> snd s \<le> 0 + length (build_file recs)"
        using layout_spans_bounds [of "fst s" "snd s" 0 recs] by simp
      then have "fst s < 2 ^ 63" "snd s < 2 ^ 63"
        using small by simp_all
      then show "(case s of (a, b) \<Rightarrow> (sint (of_nat a :: off_t), sint (of_nat b :: off_t))) =
                 (case s of (a, b) \<Rightarrow> (int a, int b))"
        by (simp add: case_prod_unfold sint_off_t_of_nat)
    qed
    finally show ?thesis .
  qed
  have nxt: "\<forall>r. GetNextOffset L r = GetOffset r + GetLen r + of_nat (sizeof_header L)"
    by (simp add: GetNextOffset_def GetOffset_def GetLen_def)
  show ?thesis
    using words ints nxt by (simp add: sc length_expected_records)
qed


theorem scan_well_formed_file_witness:
  "well_formed sample_layout sample_records
   \<and> scan sample_layout (build_file sample_records) =
       (expected_records sample_layout 0 sample_records, None)
   \<and> length (fst (scan sample_layout (build_file sample_records))) = 3
   \<and> map (\<lambda>r. (sint (GetOffset r), sint (GetNextOffset sample_layout r)))
        (fst (scan sample_layout (build_file sample_records))) = [(0, 10), (10, 26), (26, 42)]"
proof -
  have len: "length sample_records = 3"
    by (simp add: sample_records_def)
  have small: "length (build_file sample_records) < 2 ^ 63"
    by (simp add: sample_file_length)
  have ints: "map (\<lambda>(a, b). (int a, int b)) (layout_spans 0 sample_records) =
      [(0, 10), (10, 26), (26, 42)]"
    by (simp add: sample_spans)
  note th = scan_well_formed_file [OF sample_well_formed]
  have sc: "scan sample_layout (build_file sample_records) =
          (expected_records sample_layout 0 sample_records, None)"
    using th by (rule conjunct1)
  have n: "length (fst (scan sample_layout (build_file sample_records))) = length sample_records"
    using th by (elim conjE)
  have "length (build_file sample_records) < 2 ^ 63 \<longrightarrow>
          map (\<lambda>r. (sint (GetOffset r), sint (GetNextOffset sample_layout r)))
            (fst (scan sample_layout (build_file sample_records))) =
          map (\<lambda>(a, b). (int a, int b)) (layout_spans 0 sample_records)"
    using th by (elim conjE)
  then have "map (\<lambda>r. (sint (GetOffset r), sint (GetNextOffset sample_layout r)))
            (fst (scan sample_layout (build_file sample_records))) = [(0, 10), (10, 26), (26, 42)]"
    using small by (simp only: ints)
  then show ?thesis
    using sample_well_formed sc n by (simp only: len simp_thms)
qed

text \<open>
  Claim C6. At every position of a file: if fewer bytes than a header remain, the scan
  from there ends without an error and without a record; if a whole header remains and it
  declares more payload bytes than remain after it, the scan from there ends with
  \<open>TruncatedRecord\<close> and that position, without a record. After the records of a
  well-formed file the same holds for the scan of the whole file: it yields those records,
  no further or partial record, and ends cleanly or with \<open>TruncatedRecord\<close> and the offset
  of the truncated record.
\<close>

theorem scan_clean_end_or_truncated:
  "(length file - off < sizeof_header L \<longrightarrow> scan_from L file off = ([], None))
   \<and> (sizeof_header L \<le> length file - off
        \<and> length file - off - sizeof_header L
            < len (decode_header L (take (sizeof_header L) (drop off file)))
      \<longrightarrow> scan_from L file off = ([], Some (TruncatedRecord off)))
   \<and> (well_formed L recs \<and> length rest < sizeof_header L \<longrightarrow>
        scan L (build_file recs @ rest) = (expected_records L 0 recs, None))
   \<and> (well_formed L recs \<and> sizeof_header L \<le> length rest
        \<and> length rest - sizeof_header L < len (decode_header L (take (sizeof_header L) rest))
      \<longrightarrow> scan L (build_file recs @ rest) =
            (expected_records L 0 recs, Some (TruncatedRecord (length (build_file recs)))))"
proof -
  let ?file = "build_file recs @ rest"
  let ?n = "length (build_file recs)"
  have pre: "scan L ?file =
          (case scan_from L ?file ?n of (rs, e) \<Rightarrow> (expected_records L 0 recs @ rs, e))"
    if "well_formed L recs"
    using scan_from_build_file [OF that, of "[]" rest] by (simp add: scan_def)
  have a: "scan_from L file off = ([], None)" if "length file - off < sizeof_header L"
    using that by (rule scan_from_end)
  have b: "scan_from L file off = ([], Some (TruncatedRecord off))"
    if "sizeof_header L \<le> length file - off"
      and "length file - off - sizeof_header L
                < len (decode_header L (take (sizeof_header L) (drop off file)))"
    using that by (rule scan_from_truncated)
  have c: "scan L ?file = (expected_records L 0 recs, None)"
    if "well_formed L recs" and "length rest < sizeof_header L"
  proof -
    have "scan_from L ?file ?n = ([], None)"
      by (rule scan_from_end) (simp add: that(2))
    then show ?thesis by (simp add: pre [OF that(1)])
  qed
  have d: "scan L ?file = (expected_records L 0 recs, Some (TruncatedRecord ?n))"
    if "well_formed L recs" and "sizeof_header L \<le> length rest"
      and "length rest - sizeof_header L < len (decode_header L (take (sizeof_header L) rest))"
  proof -
    have "scan_from L ?file ?n = ([], Some (TruncatedRecord ?n))"
      by (rule scan_from_truncated) (simp_all add: that(2,3))
    then show ?thesis by (simp add: pre [OF that(1)])
  qed
  show ?thesis
    using a b c d by blast
qed

lemma sample_tail_header:
  "len (decode_header sample_layout (take (sizeof_header sample_layout) sample_truncated_tail)) = 100"
  by (simp add: sample_layout_def sizeof_header_def sample_truncated_tail_def
      sample_decode_header_def le_nat_def)

theorem scan_clean_end_or_truncated_witness:
  "well_formed sample_layout sample_records
   \<and> length sample_truncated_tail - sizeof_header sample_layout = 40
   \<and> len (decode_header sample_layout
            (take (sizeof_header sample_layout) sample_truncated_tail)) = 100
   \<and> scan sample_layout (build_file sample_records @ sample_truncated_tail) =
       (expected_records sample_layout 0 sample_records, Some (TruncatedRecord 42))
   \<and> scan sample_layout (build_file sample_records @ [1, 2, 3]) =
       (expected_records sample_layout 0 sample_records, None)"
proof -
  have hs: "sizeof_header sample_layout = 6"
    by (simp add: sizeof_header_def sample_layout_def)
  have tl: "length sample_truncated_tail = 46"
    by (simp add: sample_truncated_tail_def)
  have short: "length [1, 2, 3 :: byte] < sizeof_header sample_layout"
    by (simp add: hs)
  have trunc: "sizeof_header sample_layout \<le> length sample_truncated_tail
      \<and> length sample_truncated_tail - sizeof_header sample_layout
          < len (decode_header sample_layout
                  (take (sizeof_header sample_layout) sample_truncated_tail))"
    by (simp add: sample_tail_header) (simp add: hs tl)
  have "scan sample_layout (build_file sample_records @ sample_truncated_tail) =
       (expected_records sample_layout 0 sample_records,
        Some (TruncatedRecord (length (build_file sample_records))))"
    using scan_clean_end_or_truncated [of _ _ sample_layout sample_records sample_truncated_tail]
      sample_well_formed trunc
    by blast
  moreover have "scan sample_layout (build_file sample_records @ [1, 2, 3]) =
       (expected_records sample_layout 0 sample_records, None)"
    using scan_clean_end_or_truncated [of _ _ sample_layout sample_records "[1, 2, 3]"]
      sample_well_formed short
    by blast
  ultimately show ?thesis
    using sample_well_formed sample_tail_header by (simp add: sample_file_length hs tl)
qed

section \<open>Properties of the branch chain\<close>

lemma expected_records_nth:
  assumes "j < length recs"
  shows "expected_records L off recs ! j =
           \<lparr>m_Header = decode_header L (fst (recs ! j)), m_pBuffer = snd (recs ! j),
            m_Len = of_nat (length (snd (recs ! j))),
            m_Offset = of_nat (fst (layout_spans off recs ! j))\<rparr>"
  using assms
proof (induction recs arbitrary: off j)
  case Nil
  then show ?case by simp
next
  case (Cons rp recs)
  then show ?case by (cases j) simp_all
qed

lemma read_record_layout:
  assumes "well_formed L recs" and "j < length recs"
  shows "read_record L (pre @ build_file recs @ rest) (fst (layout_spans (length pre) recs ! j)) =
           Rec (expected_records L (length pre) recs ! j)"
  using assms
proof (induction recs arbitrary: pre j)
  case Nil
  then show ?case by simp
next
  case (Cons rp recs)
  from Cons.prems have ch: "correct_header L rp" and wf: "well_formed L recs"
    by (simp_all add: well_formed_Cons)
  show ?case
  proof (cases j)
    case 0
    then show ?thesis
      using read_record_at [OF ch, of pre "build_file recs @ rest"]
      by (simp add: build_file_Cons)
  next
    case (Suc k)
    with Cons.prems have k: "k < length recs" by simp
    have "read_record L ((pre @ fst rp @ snd rp) @ build_file recs @ rest)
            (fst (layout_spans (length (pre @ fst rp @ snd rp)) recs ! k)) =
          Rec (expected_records L (length (pre @ fst rp @ snd rp)) recs ! k)"
      using wf k by (rule Cons.IH)
    then show ?thesis
      using Suc by (simp add: build_file_Cons length_raw_bytes add.assoc)
  qed
qed

text \<open>
  Claim C8. In a well-formed file, for a branch-file object whose \<open>previousOffset\<close> is the
  offset of a record of the file that is a branch-file record, \<open>GetPrevious\<close> returns the
  object of that record, and the offset of its record equals \<open>previousOffset\<close>.
\<close>

theorem GetPrevious_round_trip:
  assumes "well_formed L recs" and "j < length recs"
    and "StringToType (type (decode_header L (fst (recs ! j)))) = eBranchFile"
    and "unat (GetPreviousOffset L obj) = fst (layout_spans 0 recs ! j)"
  shows "GetPrevious L (build_file recs) obj = Inr \<lparr>m_pRecord = fst (scan L (build_file recs)) ! j\<rparr>
       \<and> GetOffset (fst (scan L (build_file recs)) ! j) = ucast (GetPreviousOffset L obj)"
proof -
  let ?r = "expected_records L 0 recs ! j"
  have sc: "fst (scan L (build_file recs)) = expected_records L 0 recs"
    using scan_from_build_file [OF assms(1), of "[]" "[]"]
      scan_from_end [of "build_file recs" "length (build_file recs)" L]
    by (simp add: scan_def sizeof_header_def)
  have "read_record L ([] @ build_file recs @ []) (fst (layout_spans (length ([] :: byte list)) recs ! j)) =
          Rec (expected_records L (length ([] :: byte list)) recs ! j)"
    using assms(1,2) by (rule read_record_layout)
  then have rd: "read_record L (build_file recs) (unat (GetPreviousOffset L obj)) = Rec ?r"
    by (simp add: assms(4))
  have kind: "GetType ?r = eBranchFile"
    using assms(3) by (simp add: GetType_def expected_records_nth [OF assms(2)])
  have "m_Offset ?r = of_nat (unat (GetPreviousOffset L obj))"
    by (simp add: expected_records_nth [OF assms(2)] assms(4))
  then have off: "GetOffset ?r = ucast (GetPreviousOffset L obj)"
    by (simp add: GetOffset_def)
  show ?thesis
    using rd kind off by (simp add: GetPrevious_def Let_def sc)
qed

theorem GetPrevious_round_trip_witness:
  "well_formed sample_layout sample_records
   \<and> unat (GetPreviousOffset sample_layout sample_branch_object) = 10
   \<and> GetOffset (m_pRecord sample_branch_object) = 26
   \<and> GetPrevious sample_layout (build_file sample_records) sample_branch_object =
       Inr \<lparr>m_pRecord = fst (scan sample_layout (build_file sample_records)) ! 1\<rparr>
   \<and> GetOffset (fst (scan sample_layout (build_file sample_records)) ! 1) = 10"
proof -
  have len: "(1::nat) < length sample_records"
    by (simp add: sample_records_def)
  have kind: "StringToType (type (decode_header sample_layout (fst (sample_records ! 1)))) = eBranchFile"
    by (simp add: sample_layout_def sample_records_def sample_decode_header_def
        StringToType_def tag_table_def)
  have obj: "m_pRecord sample_branch_object =
      \<lparr>m_Header = \<lparr>type = (CHR ''B'', CHR ''F''), len = 10\<rparr>,
       m_pBuffer = [10, 0, 0, 0, 0x42, 0x42, 0x42, 0x42, 0x42, 0x42],
       m_Len = 10, m_Offset = 26\<rparr>"
    by (simp add: sample_branch_object_def sample_layout_def sample_records_def
        sample_decode_header_def le_nat_def raw_bytes_def)
  have prev: "GetPreviousOffset sample_layout sample_branch_object = 10"
    by (simp add: GetPreviousOffset_def GetData_def GetBuffer_def obj sample_layout_def
        sample_decode_previousOffset_def le_nat_def)
  have pointsto: "unat (GetPreviousOffset sample_layout sample_branch_object) =
      fst (layout_spans 0 sample_records ! 1)"
    by (simp add: prev sample_spans)
  show ?thesis
    using GetPrevious_round_trip [OF sample_well_formed len kind pointsto]
    by (simp add: sample_well_formed prev obj GetOffset_def)
qed

section \<open>Properties of the validate command\<close>

text \<open>
  Claim C7, as stated, fails when \<open>MakeFile\<close> returns a null pointer for the path:
  \<open>Execute\<close> returns without an error, having validated nothing.
\<close>

theorem Execute_null_counterexample:
  "MakeFile_null ''unrecognized.bin'' = Null
   \<and> Execute MakeFile_null Validate_pass () ''unrecognized.bin'' = Inr NothingDone
   \<and> Execute MakeFile_null Validate_pass () ''unrecognized.bin'' \<noteq> Inl FileNotRecognized"
  by (simp add: Execute_def MakeFile_null_def)

text \<open>
  Claim C7, amended. \<open>Execute\<close> fails with an error exactly when \<open>MakeFile\<close> throws that
  error for the path or \<open>Validate\<close> throws it for the file object made; it validates
  exactly when \<open>MakeFile\<close> returns a file object and \<open>Validate\<close> returns; when \<open>MakeFile\<close>
  returns a null pointer, \<open>Execute\<close> returns without an error, having done nothing.
\<close>

theorem Execute_outcomes:
  "(Execute MakeFile Validate options arg = Inl e \<longleftrightarrow>
      MakeFile arg = Throws e \<or> (\<exists>pFile. MakeFile arg = File pFile \<and> Validate pFile = Inl e))
   \<and> (Execute MakeFile Validate options arg = Inr Validated \<longleftrightarrow>
      (\<exists>pFile. MakeFile arg = File pFile \<and> Validate pFile = Inr ()))
   \<and> (MakeFile arg = Null \<longrightarrow> Execute MakeFile Validate options arg = Inr NothingDone)"
  by (auto simp: Execute_def split: MakeFile_result.splits sum.splits)

theorem Execute_outcomes_witness:
  "MakeFile_throws ''unrecognized.bin'' = Throws FileNotRecognized
   \<and> Execute MakeFile_throws Validate_pass () ''unrecognized.bin'' = Inl FileNotRecognized
   \<and> MakeFile_null ''unrecognized.bin'' = Null
   \<and> Execute MakeFile_null Validate_pass () ''unrecognized.bin'' = Inr NothingDone"
proof -
  have t: "MakeFile_throws ''unrecognized.bin'' = Throws FileNotRecognized"
    by (simp add: MakeFile_throws_def)
  have n: "MakeFile_null ''unrecognized.bin'' = Null"
    by (simp add: MakeFile_null_def)
  show ?thesis
    using t n
      Execute_outcomes [of MakeFile_throws Validate_pass "()" "''unrecognized.bin''" FileNotRecognized]
      Execute_outcomes [of MakeFile_null Validate_pass "()" "''unrecognized.bin''" FileNotRecognized]
    by blast
qed

end
